theory Spec2Isabelle
  imports Complex_Main "HOL-Library.Sublist"
begin

text \<open>
  A shallow embedding of the interaction controller of \<^verbatim>\<open>src/sketch.js\<close>: the geometric
  measures, the per-frame mouth and nose logic of \<open>drawUI\<close>, and the speech callback
  \<open>showResult\<close> with its phrase matcher.  The file holds several sketches one after the
  other; the one modelled is the face-tracking sketch whose \<open>showResult\<close> searches
  \<open>crtTVNames\<close> (lines 568 to 1320).
\<close>

section \<open>Strings of the sketch\<close>

text \<open>
  JavaScript strings are modelled as \<^typ>\<open>string\<close> (lists of 8-bit characters), which covers
  the ASCII phrases of the catalogue and of an en-US recogniser.  \<open>toLowerCase\<close> maps the
  letters A..Z to a..z and leaves every other character alone.
\<close>

definition lowerChar :: "char \<Rightarrow> char" where
  "lowerChar c =
     (let n = (of_char c :: nat) in if 65 \<le> n \<and> n \<le> 90 then char_of (n + 32) else c)"

definition toLowerCase :: "string \<Rightarrow> string" where
  "toLowerCase s = map lowerChar s"

text \<open>
  The character class of the regular expression in
  \<^verbatim>\<open>myRec.resultString.split(/[ +\-_`'\.\?!]+/)\<close>: space, plus, hyphen, underscore,
  backtick (0x60), apostrophe (0x27), period, question mark, exclamation mark.
\<close>

definition isSeparator :: "char \<Rightarrow> bool" where
  "isSeparator c =
     (c \<in> set [CHR '' '', CHR ''+'', CHR ''-'', CHR ''_'', CHR 0x60, CHR 0x27,
                CHR ''.'', CHR ''?'', CHR ''!''])"

text \<open>
  \<open>String.prototype.split\<close> with the regular expression \<open>[...]+\<close>: the text before a
  separator run is a piece, the whole run (the \<open>+\<close> is greedy) is dropped, and the text
  after the last run is the last piece.  A run at the very start or end therefore leaves an
  empty first or last piece, and the empty string splits into one empty piece.
  \<open>cur\<close> is the piece being collected.
\<close>

function splitRegex :: "string \<Rightarrow> string \<Rightarrow> string list" where
  "splitRegex cur [] = [cur]"
| "splitRegex cur (c # cs) =
     (if isSeparator c then cur # splitRegex [] (dropWhile isSeparator cs)
      else splitRegex (cur @ [c]) cs)"
  by pat_completeness auto
termination
  by (relation "measure (\<lambda>(cur, s). length s)")
     (auto simp: le_imp_less_Suc length_dropWhile_le)

definition splitWords :: "string \<Rightarrow> string list" where
  "splitWords resultString = splitRegex [] resultString"

text \<open>\<^verbatim>\<open>nameEntry.split(" ")\<close>: every single space is a separator.\<close>

fun splitSpace :: "string \<Rightarrow> string \<Rightarrow> string list" where
  "splitSpace cur [] = [cur]"
| "splitSpace cur (c # cs) =
     (if c = CHR '' '' then cur # splitSpace [] cs else splitSpace (cur @ [c]) cs)"

definition nameParts :: "string \<Rightarrow> string list" where
  "nameParts nameEntry = splitSpace [] nameEntry"

section \<open>Phrase matcher (the loops of \<open>showResult\<close>)\<close>

text \<open>
  The innermost loop \<^verbatim>\<open>for (let k = wordIndex; k < words.length; k++)\<close>: the first
  \<open>k\<close> from \<open>wordIndex\<close> on whose word equals the part after lower-casing both gives the
  new \<open>wordIndex = k + 1\<close>; \<open>None\<close> is \<open>partFound = false\<close>.
\<close>

function findPart :: "string list \<Rightarrow> nat \<Rightarrow> string \<Rightarrow> nat option" where
  "findPart words k part =
     (if k < length words
      then (if toLowerCase (words ! k) = toLowerCase part then Some (k + 1)
            else findPart words (k + 1) part)
      else None)"
  by pat_completeness auto
termination
  by (relation "measure (\<lambda>(words, k, part). length words - k)") auto

declare findPart.simps [simp del]

text \<open>The loop \<^verbatim>\<open>for (let part of nameParts)\<close>, leaving at the first part not found.\<close>

fun allPartsFound :: "string list \<Rightarrow> nat \<Rightarrow> string list \<Rightarrow> bool" where
  "allPartsFound words wordIndex [] = True"
| "allPartsFound words wordIndex (part # parts) =
     (case findPart words wordIndex part of
        None \<Rightarrow> False
      | Some wordIndex' \<Rightarrow> allPartsFound words wordIndex' parts)"

text \<open>One synonym against the words: \<open>wordIndex\<close> starts at 0.\<close>

definition synonymMatches :: "string list \<Rightarrow> string \<Rightarrow> bool" where
  "synonymMatches words nameEntry = allPartsFound words 0 (nameParts nameEntry)"

text \<open>
  The loop over \<open>j\<close>: the first synonym of an entry that matches (the one the sketch logs
  as \<open>Found match\<close>), then \<open>break\<close>.
\<close>

fun findSynonym :: "string list \<Rightarrow> string list \<Rightarrow> string option" where
  "findSynonym words [] = None"
| "findSynonym words (nameEntry # rest) =
     (if synonymMatches words nameEntry then Some nameEntry else findSynonym words rest)"

text \<open>The loop over \<open>i\<close>, left as soon as \<open>foundIndex\<close> is set.\<close>

fun searchNames :: "string list \<Rightarrow> string list list \<Rightarrow> nat \<Rightarrow> (nat \<times> string) option" where
  "searchNames words [] i = None"
| "searchNames words (entry # rest) i =
     (case findSynonym words entry of
        Some nameEntry \<Rightarrow> Some (i, nameEntry)
      | None \<Rightarrow> searchNames words rest (i + 1))"

text \<open>\<open>foundIndex\<close> as the sketch holds it: \<open>-1\<close> when nothing matched.\<close>

definition foundIndex :: "string \<Rightarrow> string list list \<Rightarrow> int" where
  "foundIndex resultString crtTVNames =
     (case searchNames (splitWords resultString) crtTVNames 0 of
        None \<Rightarrow> - 1
      | Some (i, nameEntry) \<Rightarrow> int i)"

text \<open>The catalogue \<open>crtTVNames\<close> as \<open>preload\<close> fills it: 18 entries of three synonyms.\<close>

definition crtTVNames :: "string list list" where
  "crtTVNames =
     [[''daffodil'', ''narcissus'', ''jonquil''],
      [''daisy'', ''ox-eye'', ''bellis''],
      [''forget me not'', ''myosotis'', ''mouse ear''],
      [''hibiscus'', ''rose of sharon'', ''rosemallow''],
      [''iris'', ''flag iris'', ''sword lily''],
      [''jasmine'', ''jessamine'', ''carolina jasmine''],
      [''lavender'', ''lavandula'', ''purple sage''],
      [''lily of the valley'', ''convallaria'', ''may lily''],
      [''lotus'', ''water lily'', ''sacred lotus''],
      [''morning glory'', ''ipomoea'', ''bindweed''],
      [''orchid'', ''orchidaceae'', ''phalaenopsis''],
      [''peony'', ''paeonia'', ''pioney''],
      [''poppy'', ''papaver'', ''corn poppy''],
      [''rose'', ''rosa'', ''queen of flowers''],
      [''sunflower'', ''helianthus'', ''sun disk''],
      [''tulip'', ''tulipa'', ''lady tulip''],
      [''violet'', ''viola'', ''sweet violet''],
      [''wisteria'', ''wistaria'', ''glycine'']]"

section \<open>Geometric measures\<close>

text \<open>
  A point is an object with numeric \<open>x\<close> and \<open>y\<close>, or \<open>null\<close> (\<open>None\<close>).  Reading a
  property of \<open>null\<close> throws a \<open>TypeError\<close> in JavaScript, so property reads are fallible
  and the measures return a result or the error.  The drawing that \<open>showData\<close> switches on
  paints the canvas only and is left out.
\<close>

datatype js_error = TypeError

record point =
  pt_x :: real
  pt_y :: real

record velocity =
  vel_x :: real
  vel_y :: real
  vel_speed :: real

definition get_x :: "point option \<Rightarrow> js_error + real" where
  "get_x p = (case p of None \<Rightarrow> Inl TypeError | Some q \<Rightarrow> Inr (pt_x q))"

definition get_y :: "point option \<Rightarrow> js_error + real" where
  "get_y p = (case p of None \<Rightarrow> Inl TypeError | Some q \<Rightarrow> Inr (pt_y q))"

text \<open>\<open>a - b\<close> on two property reads, the left one first.\<close>

definition minus_props :: "js_error + real \<Rightarrow> js_error + real \<Rightarrow> js_error + real" where
  "minus_props a b =
     (case a of Inl e \<Rightarrow> Inl e
      | Inr u \<Rightarrow> (case b of Inl e \<Rightarrow> Inl e | Inr v \<Rightarrow> Inr (u - v)))"

definition measureDistance :: "point option \<Rightarrow> point option \<Rightarrow> js_error + real option" where
  "measureDistance point1 point2 =
     (if point1 = None \<or> point2 = None then Inr None
      else case minus_props (get_x point2) (get_x point1) of
             Inl e \<Rightarrow> Inl e
           | Inr dx \<Rightarrow>
               (case minus_props (get_y point2) (get_y point1) of
                  Inl e \<Rightarrow> Inl e
                | Inr dy \<Rightarrow> Inr (Some (sqrt (dx * dx + dy * dy)))))"

definition measureVelocity :: "point option \<Rightarrow> point option \<Rightarrow> js_error + velocity" where
  "measureVelocity currentPoint previousPoint =
     (if currentPoint = None \<or> previousPoint = None
      then Inr \<lparr>vel_x = 0, vel_y = 0, vel_speed = 0\<rparr>
      else case minus_props (get_x currentPoint) (get_x previousPoint) of
             Inl e \<Rightarrow> Inl e
           | Inr vx \<Rightarrow>
               (case minus_props (get_y currentPoint) (get_y previousPoint) of
                  Inl e \<Rightarrow> Inl e
                | Inr vy \<Rightarrow>
                    Inr \<lparr>vel_x = vx, vel_y = vy, vel_speed = sqrt (vx * vx + vy * vy)\<rparr>))"

section \<open>The interaction state and one frame of \<open>drawUI\<close>\<close>

text \<open>
  The globals the controller reads and writes.  \<open>pg\<close> names the status graphic;
  \<open>crtTVIndex\<close> is an integer, or \<open>None\<close> for the \<open>NaN\<close> that \<open>% 0\<close> gives.
  Times and distances are the numbers of \<open>millis()\<close> and of the measures, as reals.
\<close>

datatype graphic = PgUnset | PgStarting | PgShowFace | PgOpen | PgClosed | PgMissHear

datatype command = Start | Stop

record sketch =
  mouthOpen :: bool
  mouthClose :: bool
  mouthOpenTime :: real
  mouthCloseTime :: real
  velocityYTime :: real
  crtTVIndex :: "int option"
  pg :: graphic

definition initSketch :: sketch where
  "initSketch =
     \<lparr>mouthOpen = False, mouthClose = False, mouthOpenTime = 0, mouthCloseTime = 0,
      velocityYTime = 0, crtTVIndex = Some 0, pg = PgUnset\<rparr>"

text \<open>
  What one call of \<open>drawUI\<close> reads from outside the controller: \<open>cam.ready\<close>,
  \<open>faces.length\<close>, \<open>millis()\<close>, the lip distance and the nose velocity that \<open>draw\<close> has just
  measured (\<open>null\<close> is \<open>None\<close>), \<open>crtTVImages.length\<close>, and the number that
  \<open>random(crtTVImages.length)\<close> returns when it is called in this frame.
\<close>

record frame =
  camReady :: bool
  facesLength :: nat
  nowTime :: real
  distance3_4 :: "real option"
  velocity5_y :: real
  imagesLength :: nat
  randomValue :: real

text \<open>\<open>distance3_4 > 3\<close>; \<open>null > 3\<close> is false.\<close>

definition aboveOpen :: "real option \<Rightarrow> bool" where
  "aboveOpen d = (case d of None \<Rightarrow> False | Some v \<Rightarrow> v > 3)"

text \<open>JavaScript's \<open>%\<close> on integers: the sign of the dividend, \<open>NaN\<close> for a zero divisor.\<close>

definition jsRem :: "int \<Rightarrow> int \<Rightarrow> int option" where
  "jsRem a b = (if b = 0 then None else Some (sgn a * (\<bar>a\<bar> mod \<bar>b\<bar>)))"

text \<open>\<open>floor(random(crtTVImages.length))\<close>.\<close>

definition randomIndex :: "frame \<Rightarrow> int option" where
  "randomIndex f = Some \<lfloor>randomValue f\<rfloor>"

text \<open>
  The \<open>if (distance3_4 > 3) ... else ...\<close> block: the engine calls it makes are returned
  beside the new state.
\<close>

definition mouthStep :: "frame \<Rightarrow> sketch \<Rightarrow> sketch \<times> command list" where
  "mouthStep f s =
     (if aboveOpen (distance3_4 f) then
        (let (s1, cmds) =
               (if \<not> mouthOpen s \<and> nowTime f - mouthCloseTime s > 500
                then (s\<lparr>pg := PgOpen, mouthOpen := True, mouthOpenTime := nowTime f\<rparr>, [Start])
                else (s, []));
             s2 = (if mouthClose s1 \<and> nowTime f - mouthCloseTime s1 > 500
                   then s1\<lparr>mouthClose := False\<rparr> else s1)
         in (s2, cmds))
      else
        (let s1 = (if \<not> mouthOpen s \<and> \<not> mouthClose s then s\<lparr>pg := PgClosed\<rparr> else s);
             s2 = s1\<lparr>mouthClose := True, mouthCloseTime := nowTime f\<rparr>
         in if mouthOpen s2 \<and> nowTime f - mouthOpenTime s2 > 10000
            then (s2\<lparr>pg := PgMissHear, mouthOpen := False, crtTVIndex := randomIndex f\<rparr>,
                  [Stop])
            else (s2, [])))"

text \<open>The block that replaces a stale \<open>pgShowFace\<close> or \<open>pgMissHear\<close> graphic.\<close>

definition graphicStep :: "frame \<Rightarrow> sketch \<Rightarrow> sketch" where
  "graphicStep f s =
     (if pg s = PgShowFace \<or> (pg s = PgMissHear \<and> nowTime f - mouthOpenTime s > 10000)
      then (if mouthOpen s then s\<lparr>pg := PgOpen\<rparr> else s\<lparr>pg := PgClosed\<rparr>)
      else s)"

text \<open>The nose-velocity block that cycles the selection.\<close>

definition velocityStep :: "frame \<Rightarrow> sketch \<Rightarrow> sketch" where
  "velocityStep f s =
     (if \<not> mouthOpen s \<and> \<bar>velocity5_y f\<bar> > 10 \<and> nowTime f - velocityYTime s > 500
      then (let s1 = s\<lparr>velocityYTime := nowTime f\<rparr> in
            if velocity5_y f > 0
            then s1\<lparr>crtTVIndex :=
                    Option.bind (crtTVIndex s1) (\<lambda>i. jsRem (i + 1) (int (imagesLength f)))\<rparr>
            else s1\<lparr>crtTVIndex :=
                    Option.bind (crtTVIndex s1)
                      (\<lambda>i. jsRem (i - 1 + int (imagesLength f)) (int (imagesLength f)))\<rparr>)
      else s)"

text \<open>\<open>drawUI\<close>, without the rendering calls.\<close>

definition drawUI :: "frame \<Rightarrow> sketch \<Rightarrow> sketch \<times> command list" where
  "drawUI f s =
     (if \<not> camReady f then (s\<lparr>pg := PgStarting\<rparr>, [])
      else if facesLength f = 0 then (s\<lparr>pg := PgShowFace\<rparr>, [])
      else (let (s1, cmds) = mouthStep f s
            in (velocityStep f (graphicStep f s1), cmds)))"

text \<open>Successive frames, each with the gesture flag before and after it and its calls.\<close>

fun runFrames :: "frame list \<Rightarrow> sketch \<Rightarrow> sketch \<times> (bool \<times> bool \<times> command list) list" where
  "runFrames [] s = (s, [])"
| "runFrames (f # fs) s =
     (let (s1, cmds) = drawUI f s; (s2, lg) = runFrames fs s1
      in (s2, (mouthOpen s, mouthOpen s1, cmds) # lg))"

definition openTransitions :: "(bool \<times> bool \<times> command list) list \<Rightarrow> nat" where
  "openTransitions lg = length (filter (\<lambda>(before, after, cmds). \<not> before \<and> after) lg)"

definition closeTransitions :: "(bool \<times> bool \<times> command list) list \<Rightarrow> nat" where
  "closeTransitions lg = length (filter (\<lambda>(before, after, cmds). before \<and> \<not> after) lg)"

definition engineCalls :: "(bool \<times> bool \<times> command list) list \<Rightarrow> command list" where
  "engineCalls lg = concat (map (\<lambda>(before, after, cmds). cmds) lg)"

text \<open>
  A frame with the camera ready and one face, the lip distance \<open>d\<close> at time \<open>t\<close>, the nose
  at rest; and a distance sequence sampled every \<open>dt\<close> milliseconds from \<open>t\<close> on.
\<close>

definition mouthFrame :: "real \<Rightarrow> real \<Rightarrow> frame" where
  "mouthFrame t d =
     \<lparr>camReady = True, facesLength = 1, nowTime = t, distance3_4 = Some d,
      velocity5_y = 0, imagesLength = 18, randomValue = 0\<rparr>"

fun sampled :: "real \<Rightarrow> real \<Rightarrow> real list \<Rightarrow> frame list" where
  "sampled t dt [] = []"
| "sampled t dt (d # ds) = mouthFrame t d # sampled (t + dt) dt ds"

section \<open>The speech callback \<open>showResult\<close>\<close>

text \<open>
  \<open>resultValue\<close> and \<open>resultString\<close> are the recogniser's, \<open>names\<close> is \<open>crtTVNames\<close>,
  \<open>now\<close> is \<open>millis()\<close>, and \<open>rnd\<close> is what \<open>random(crtTVImages.length)\<close> returns when the
  callback calls it.
\<close>

definition showResult ::
  "bool \<Rightarrow> string \<Rightarrow> string list list \<Rightarrow> real \<Rightarrow> real \<Rightarrow> sketch \<Rightarrow> sketch" where
  "showResult resultValue resultString names now rnd s =
     (if resultValue then
        (let found = foundIndex resultString names;
             s1 = s\<lparr>mouthOpen := False, mouthClose := True, mouthCloseTime := now\<rparr>
         in if found \<noteq> - 1
            then s1\<lparr>pg := PgClosed, crtTVIndex := Some found\<rparr>
            else s1\<lparr>pg := PgMissHear, crtTVIndex := Some \<lfloor>rnd\<rfloor>\<rparr>)
      else s)"

section \<open>The specification's wording, for comparison\<close>

text \<open>
  The separator set as the specification lists it: space, hyphen, underscore, backtick,
  apostrophe, period, question mark, exclamation mark.
\<close>

definition spec_isSeparator :: "char \<Rightarrow> bool" where
  "spec_isSeparator c =
     (c \<in> set [CHR '' '', CHR ''-'', CHR ''_'', CHR 0x60, CHR 0x27,
                CHR ''.'', CHR ''?'', CHR ''!''])"

section \<open>Auxiliary notions\<close>

text \<open>An index that is a number (not \<open>NaN\<close>) within \<open>[0, n)\<close>.\<close>

definition inRange :: "int option \<Rightarrow> nat \<Rightarrow> bool" where
  "inRange idx n = (case idx of None \<Rightarrow> False | Some i \<Rightarrow> 0 \<le> i \<and> i < int n)"

text \<open>
  The gesture logic of a frame reads and writes only the three fields \<open>mouthOpen\<close>,
  \<open>mouthCloseTime\<close> and \<open>mouthOpenTime\<close>.  \<open>gestureStep\<close> is \<open>drawUI\<close> seen on these three
  fields alone (lemma \<open>drawUI_gesture\<close> below), and \<open>gestureRun\<close> is \<open>runFrames\<close> seen so.
\<close>

definition gesture :: "sketch \<Rightarrow> bool \<times> real \<times> real" where
  "gesture s = (mouthOpen s, mouthCloseTime s, mouthOpenTime s)"

definition gestureStep ::
  "frame \<Rightarrow> bool \<times> real \<times> real \<Rightarrow> (bool \<times> real \<times> real) \<times> command list" where
  "gestureStep f g =
     (case g of (isOpen, closedAt, openedAt) \<Rightarrow>
        if \<not> camReady f \<or> facesLength f = 0 then (g, [])
        else if aboveOpen (distance3_4 f)
        then (if \<not> isOpen \<and> nowTime f - closedAt > 500
              then ((True, closedAt, nowTime f), [Start]) else (g, []))
        else (if isOpen \<and> nowTime f - openedAt > 10000
              then ((False, nowTime f, openedAt), [Stop])
              else ((isOpen, nowTime f, openedAt), [])))"

fun gestureRun ::
  "frame list \<Rightarrow> bool \<times> real \<times> real \<Rightarrow>
     (bool \<times> real \<times> real) \<times> (bool \<times> bool \<times> command list) list" where
  "gestureRun [] g = (g, [])"
| "gestureRun (f # fs) g =
     (let (g1, cmds) = gestureStep f g; (g2, lg) = gestureRun fs g1
      in (g2, (fst g, fst g1, cmds) # lg))"

section \<open>Facts about the matcher\<close>

lemma allPartsFound_subseq:
  "allPartsFound words k parts \<longleftrightarrow>
     subseq (map toLowerCase parts) (map toLowerCase (drop k words))"
proof (induction parts arbitrary: k words)
  case Nil
  show ?case by simp
next
  case (Cons part parts)
  show ?case
  proof (induction words k part rule: findPart.induct)
    case (1 words k part)
    show ?case
    proof (cases "k < length words")
      case False
      then show ?thesis by (simp add: findPart.simps [of words k part])
    next
      case True
      then have d: "drop k words = words ! k # drop (Suc k) words"
        by (simp add: Cons_nth_drop_Suc)
      show ?thesis
      proof (cases "toLowerCase (words ! k) = toLowerCase part")
        case True
        with \<open>k < length words\<close> d Cons.IH [of words "Suc k"] show ?thesis
          by (simp add: findPart.simps [of words k part])
      next
        case False
        with \<open>k < length words\<close> d "1.IH" show ?thesis
          by (simp add: findPart.simps [of words k part])
      qed
    qed
  qed
qed

lemma findPart_Some_iff:
  "findPart words k part = Some k' \<longleftrightarrow>
     (\<exists>j. k' = Suc j \<and> k \<le> j \<and> j < length words
          \<and> toLowerCase (words ! j) = toLowerCase part
          \<and> (\<forall>i. k \<le> i \<and> i < j \<longrightarrow> toLowerCase (words ! i) \<noteq> toLowerCase part))"
proof (induction words k part rule: findPart.induct)
  case (1 words k part)
  show ?case
  proof (cases "k < length words")
    case False
    then show ?thesis by (auto simp: findPart.simps [of words k part])
  next
    case inb: True
    show ?thesis
    proof (cases "toLowerCase (words ! k) = toLowerCase part")
      case True
      have "j = k" if "k \<le> j"
        "\<forall>i. k \<le> i \<and> i < j \<longrightarrow> toLowerCase (words ! i) \<noteq> toLowerCase part" for j
      proof (rule ccontr)
        assume "j \<noteq> k"
        with that(1) have "k \<le> k \<and> k < j" by simp
        with that(2) True show False by blast
      qed
      with inb True show ?thesis
        by (auto simp: findPart.simps [of words k part])
    next
      case False
      have "(\<exists>j. k' = Suc j \<and> Suc k \<le> j \<and> j < length words
                \<and> toLowerCase (words ! j) = toLowerCase part
                \<and> (\<forall>i. Suc k \<le> i \<and> i < j \<longrightarrow> toLowerCase (words ! i) \<noteq> toLowerCase part))
          \<longleftrightarrow> (\<exists>j. k' = Suc j \<and> k \<le> j \<and> j < length words
                \<and> toLowerCase (words ! j) = toLowerCase part
                \<and> (\<forall>i. k \<le> i \<and> i < j \<longrightarrow> toLowerCase (words ! i) \<noteq> toLowerCase part))"
        (is "?A \<longleftrightarrow> ?B")
      proof
        assume ?A
        then obtain j where j: "k' = Suc j" "Suc k \<le> j" "j < length words"
          "toLowerCase (words ! j) = toLowerCase part"
          "\<forall>i. Suc k \<le> i \<and> i < j \<longrightarrow> toLowerCase (words ! i) \<noteq> toLowerCase part"
          by blast
        have "toLowerCase (words ! i) \<noteq> toLowerCase part" if "k \<le> i" "i < j" for i
          using that j(5) False by (cases "i = k") auto
        with j show ?B by auto
      next
        assume ?B
        then obtain j where j: "k' = Suc j" "k \<le> j" "j < length words"
          "toLowerCase (words ! j) = toLowerCase part"
          "\<forall>i. k \<le> i \<and> i < j \<longrightarrow> toLowerCase (words ! i) \<noteq> toLowerCase part"
          by blast
        from j(4) False have "j \<noteq> k" by auto
        with j show ?A by auto
      qed
      with inb False "1.IH" show ?thesis
        by (simp add: findPart.simps [of words k part])
    qed
  qed
qed

lemma findSynonym_find: "findSynonym words entry = List.find (synonymMatches words) entry"
  by (induction entry) auto

lemma searchNames_Some:
  "searchNames words names i0 = Some (i, e) \<longleftrightarrow>
     i0 \<le> i \<and> i - i0 < length names \<and>
     (\<forall>k<i - i0. findSynonym words (names ! k) = None) \<and>
     findSynonym words (names ! (i - i0)) = Some e"
proof (induction names arbitrary: i0)
  case Nil
  show ?case by simp
next
  case (Cons entry rest)
  show ?case
  proof (cases "findSynonym words entry")
    case (Some e')
    have "i - i0 = 0" if "\<forall>k<i - i0. findSynonym words ((entry # rest) ! k) = None"
    proof (rule ccontr)
      assume "i - i0 \<noteq> 0"
      with that have "findSynonym words ((entry # rest) ! 0) = None" by blast
      with Some show False by simp
    qed
    with Some show ?thesis by auto
  next
    case None
    show ?thesis
    proof (cases "i \<le> i0")
      case True
      with None show ?thesis using Cons.IH [of "Suc i0"] by auto
    next
      case False
      then have d: "i - i0 = Suc (i - Suc i0)" by simp
      from None False show ?thesis
        using Cons.IH [of "Suc i0"] by (auto simp: d All_less_Suc2)
    qed
  qed
qed

lemma searchNames_None:
  "searchNames words names i0 = None \<longleftrightarrow>
     (\<forall>k<length names. findSynonym words (names ! k) = None)"
proof (induction names arbitrary: i0)
  case Nil
  show ?case by simp
next
  case (Cons entry rest)
  show ?case
    using Cons.IH [of "Suc i0"]
    by (auto simp: nth_Cons' All_less_Suc2 split: option.splits)
qed

lemma foundIndex_Some:
  "searchNames (splitWords resultString) names 0 = Some (i, nameEntry) \<Longrightarrow>
     foundIndex resultString names = int i"
  by (simp add: foundIndex_def)

lemma splitRegex_plain:
  "\<forall>c\<in>set u. \<not> isSeparator c \<Longrightarrow> splitRegex cur u = [cur @ u]"
  by (induction u arbitrary: cur) auto

lemma splitRegex_run:
  assumes "\<forall>c\<in>set u. \<not> isSeparator c" and "run \<noteq> []" and "\<forall>c\<in>set run. isSeparator c"
    and "rest = [] \<or> \<not> isSeparator (hd rest)"
  shows "splitRegex cur (u @ run @ rest) = (cur @ u) # splitRegex [] rest"
  using assms(1)
proof (induction u arbitrary: cur)
  case Nil
  from assms(2) obtain r rs where run: "run = r # rs" by (cases run) auto
  with assms(3) have r: "isSeparator r" and rs: "\<forall>c\<in>set rs. isSeparator c" by auto
  from assms(4) have "dropWhile isSeparator rest = rest" by (cases rest) auto
  with rs have "dropWhile isSeparator (rs @ rest) = rest"
    by (simp add: dropWhile_append2)
  with r run show ?case by simp
next
  case (Cons c u)
  then show ?case by simp
qed

lemma synonymMatches_subseq:
  "synonymMatches words nameEntry \<longleftrightarrow>
     subseq (map toLowerCase (nameParts nameEntry)) (map toLowerCase words)"
  using allPartsFound_subseq [of words 0 "nameParts nameEntry"]
  by (simp add: synonymMatches_def)

lemma separator_codes:
  "isSeparator c \<Longrightarrow> (of_char c :: nat) \<in> {32, 33, 39, 43, 45, 46, 63, 95, 96}"
  by (auto simp: isSeparator_def)

lemma lowerChar_separator: "isSeparator (lowerChar c) \<longleftrightarrow> isSeparator c"
proof (cases "65 \<le> (of_char c :: nat) \<and> (of_char c :: nat) \<le> 90")
  case False
  then show ?thesis by (auto simp: lowerChar_def Let_def)
next
  case True
  then have l: "lowerChar c = char_of (of_char c + 32 :: nat)"
    by (simp add: lowerChar_def Let_def)
  from True have "(of_char (char_of (of_char c + 32 :: nat)) :: nat) = of_char c + 32"
    by simp
  with True separator_codes [of "char_of (of_char c + 32 :: nat)"]
  have a: "\<not> isSeparator (char_of (of_char c + 32 :: nat))" by auto
  from True separator_codes [of c] have b: "\<not> isSeparator c" by auto
  from a b l show ?thesis by simp
qed

lemma splitRegex_tokens:
  "\<forall>c\<in>set cur. \<not> isSeparator c \<Longrightarrow> w \<in> set (splitRegex cur s) \<Longrightarrow>
     \<forall>c\<in>set w. \<not> isSeparator c"
proof (induction cur s rule: splitRegex.induct)
  case (1 cur)
  then show ?case by (simp only: splitRegex.simps list.set insert_iff empty_iff) blast
next
  case (2 cur c cs)
  show ?case
  proof (cases "isSeparator c")
    case True
    then have "splitRegex cur (c # cs) = cur # splitRegex [] (dropWhile isSeparator cs)"
      by (simp only: splitRegex.simps if_True)
    with "2.prems"(2) have "w = cur \<or> w \<in> set (splitRegex [] (dropWhile isSeparator cs))"
      by (simp only: list.set insert_iff)
    then show ?thesis
    proof
      assume "w = cur"
      with "2.prems"(1) show ?thesis by blast
    next
      assume a: "w \<in> set (splitRegex [] (dropWhile isSeparator cs))"
      have "\<forall>d\<in>set ([] :: string). \<not> isSeparator d" by (simp only: list.set ball_empty)
      from "2.IH"(1) [OF True this a] show ?thesis .
    qed
  next
    case False
    then have "splitRegex cur (c # cs) = splitRegex (cur @ [c]) cs"
      by (simp only: splitRegex.simps if_False)
    with "2.prems"(2) have a: "w \<in> set (splitRegex (cur @ [c]) cs)" by (simp only:)
    from False "2.prems"(1) have "\<forall>d\<in>set (cur @ [c]). \<not> isSeparator d"
      by (simp only: set_append list.set ball_Un ball_simps) blast
    from "2.IH"(2) [OF False this a] show ?thesis .
  qed
qed

lemma separator_in_synonym_never_matches:
  assumes "part \<in> set (nameParts nameEntry)" and "c \<in> set part" and "isSeparator c"
  shows "\<not> synonymMatches (splitWords utterance) nameEntry"
proof
  assume "synonymMatches (splitWords utterance) nameEntry"
  then have "subseq (map toLowerCase (nameParts nameEntry))
      (map toLowerCase (splitWords utterance))"
    by (simp add: synonymMatches_subseq)
  moreover from assms(1)
  have "toLowerCase part \<in> set (map toLowerCase (nameParts nameEntry))" by simp
  ultimately obtain y where "y \<in> set (map toLowerCase (splitWords utterance))"
    "toLowerCase part = y" by (rule list_emb_set)
  then obtain w where w: "w \<in> set (splitWords utterance)"
    "toLowerCase w = toLowerCase part" by auto
  from w(1) have "\<forall>d\<in>set w. \<not> isSeparator d"
    using splitRegex_tokens [of "[]" w utterance] by (simp add: splitWords_def)
  then have "\<forall>d\<in>set (toLowerCase w). \<not> isSeparator d"
    by (auto simp: toLowerCase_def lowerChar_separator)
  moreover from assms(2,3) have "\<exists>d\<in>set (toLowerCase part). isSeparator d"
    by (auto simp: toLowerCase_def lowerChar_separator intro!: bexI [of _ c])
  ultimately show False using w(2) by auto
qed

text \<open>Evaluations against the catalogue of the sketch.\<close>

lemma example_filler:
  "synonymMatches (splitWords ''I would like to see a rose please'') ''rose''"
  by code_simp

lemma example_missing_word:
  "\<not> synonymMatches (splitWords ''rose garden'') ''rose of sharon''"
  by code_simp

lemma example_out_of_order:
  "\<not> synonymMatches (splitWords ''sharon rose'') ''rose of sharon''"
  by code_simp

lemma found_sharon:
  "searchNames (splitWords ''a rose of sharon'') crtTVNames 0 = Some (3, ''rose of sharon'')"
  by code_simp

lemma found_rose:
  "searchNames (splitWords ''sweet violet rose'') crtTVNames 0 = Some (13, ''rose'')"
  by code_simp

lemma found_cactus: "foundIndex ''cactus'' crtTVNames = - 1"
  by code_simp

section \<open>Claims about the phrase matcher\<close>

text \<open>
  C1: the sketch does not match a one-word synonym that holds a separator character, with
  or without filler words around it.  The utterance is split on the nine separator
  characters, a synonym on spaces only: \<open>ox-eye\<close>, a synonym of entry 1 of the catalogue, is
  the single part \<open>ox-eye\<close>, the utterance \<open>ox-eye\<close> gives the tokens \<open>ox\<close> and \<open>eye\<close>, and the
  search finds nothing.  (By \<open>separator_in_synonym_never_matches\<close> no utterance at all
  matches such a synonym; by \<open>synonymMatches_subseq\<close> a synonym is matched exactly when its
  space-separated parts are a subsequence of the tokens, both lower-cased.)
\<close>

theorem hyphenated_synonym_not_matched:
  "''ox-eye'' \<in> set (crtTVNames ! 1)
   \<and> nameParts ''ox-eye'' = [''ox-eye'']
   \<and> splitWords ''ox-eye'' = [''ox'', ''eye'']
   \<and> \<not> synonymMatches (splitWords ''ox-eye'') ''ox-eye''
   \<and> \<not> synonymMatches (splitWords ''show me an ox-eye please'') ''ox-eye''
   \<and> \<not> synonymMatches (splitWords ''ox eye'') ''ox-eye''
   \<and> foundIndex ''ox-eye'' crtTVNames = - 1"
  by code_simp

text \<open>
  C4: \<open>foundIndex\<close> is \<open>-1\<close> exactly when no synonym of any entry matches; it is \<open>i\<close> exactly
  when entry \<open>i\<close> has a matching synonym and no earlier entry has one; and the synonym the
  search stops at is the first matching synonym of that entry, in declaration order.
\<close>

theorem first_match_wins:
  "(foundIndex utterance names = - 1 \<longleftrightarrow>
      (\<forall>i<length names. \<forall>nameEntry\<in>set (names ! i).
         \<not> synonymMatches (splitWords utterance) nameEntry))
   \<and> (foundIndex utterance names = int i \<longleftrightarrow>
        i < length names
        \<and> (\<exists>nameEntry\<in>set (names ! i). synonymMatches (splitWords utterance) nameEntry)
        \<and> (\<forall>i'<i. \<forall>nameEntry\<in>set (names ! i').
               \<not> synonymMatches (splitWords utterance) nameEntry))
   \<and> (searchNames (splitWords utterance) names 0 = Some (i, nameEntry) \<longleftrightarrow>
        foundIndex utterance names = int i
        \<and> (\<exists>j<length (names ! i). names ! i ! j = nameEntry
               \<and> synonymMatches (splitWords utterance) nameEntry
               \<and> (\<forall>j'<j. \<not> synonymMatches (splitWords utterance) (names ! i ! j'))))"
proof -
  let ?w = "splitWords utterance"
  have none: "findSynonym ?w entry = None \<longleftrightarrow>
      (\<forall>nameEntry\<in>set entry. \<not> synonymMatches ?w nameEntry)" for entry
    by (auto simp: findSynonym_find find_None_iff)
  have some: "findSynonym ?w entry = Some e \<longleftrightarrow>
      (\<exists>j<length entry. entry ! j = e \<and> synonymMatches ?w e
         \<and> (\<forall>j'<j. \<not> synonymMatches ?w (entry ! j')))" for entry e
    by (auto simp: findSynonym_find find_Some_iff)
  have ex: "(\<exists>e. findSynonym ?w entry = Some e) \<longleftrightarrow>
      (\<exists>nameEntry\<in>set entry. synonymMatches ?w nameEntry)" for entry
    using none [of entry] by (cases "findSynonym ?w entry") auto
  have idx: "foundIndex utterance names = int i \<longleftrightarrow>
      (\<exists>e. searchNames ?w names 0 = Some (i, e))"
    by (auto simp: foundIndex_def split: option.splits prod.splits)
  have nf: "foundIndex utterance names = - 1 \<longleftrightarrow> searchNames ?w names 0 = None"
    by (simp add: foundIndex_def split: option.splits prod.splits)
  have A: "foundIndex utterance names = - 1 \<longleftrightarrow>
      (\<forall>i<length names. \<forall>nameEntry\<in>set (names ! i). \<not> synonymMatches ?w nameEntry)"
    by (simp add: nf searchNames_None none)
  have B: "foundIndex utterance names = int i \<longleftrightarrow>
        i < length names
        \<and> (\<exists>nameEntry\<in>set (names ! i). synonymMatches ?w nameEntry)
        \<and> (\<forall>i'<i. \<forall>nameEntry\<in>set (names ! i'). \<not> synonymMatches ?w nameEntry)"
    unfolding idx using ex [of "names ! i"]
    by (auto simp: searchNames_Some none)
  have C: "searchNames ?w names 0 = Some (i, nameEntry) \<longleftrightarrow>
        foundIndex utterance names = int i
        \<and> (\<exists>j<length (names ! i). names ! i ! j = nameEntry
               \<and> synonymMatches ?w nameEntry
               \<and> (\<forall>j'<j. \<not> synonymMatches ?w (names ! i ! j')))"
    unfolding idx using some [of "names ! i" nameEntry]
    by (auto simp: searchNames_Some)
  from A B C show ?thesis by blast
qed

text \<open>
  On the catalogue of the sketch: \<open>a rose of sharon\<close> selects entry 3 (hibiscus), which
  comes before entry 13 (rose); \<open>sweet violet rose\<close> selects entry 13 although entry 16
  lists \<open>sweet violet\<close>; \<open>cactus\<close> selects nothing.
\<close>

theorem first_match_wins_witness:
  "foundIndex ''a rose of sharon'' crtTVNames = 3
   \<and> (\<exists>nameEntry\<in>set (crtTVNames ! 3).
         synonymMatches (splitWords ''a rose of sharon'') nameEntry)
   \<and> \<not> synonymMatches (splitWords ''a rose of sharon'') (crtTVNames ! 0 ! 0)
   \<and> foundIndex ''sweet violet rose'' crtTVNames = 13
   \<and> \<not> synonymMatches (splitWords ''cactus'') (crtTVNames ! 13 ! 0)"
proof -
  have a: "foundIndex ''a rose of sharon'' crtTVNames = int 3"
    using foundIndex_Some [OF found_sharon] by simp
  have l: "(0::nat) < 3" "crtTVNames ! 0 ! 0 \<in> set (crtTVNames ! 0)"
    "13 < length crtTVNames" "crtTVNames ! 13 ! 0 \<in> set (crtTVNames ! 13)"
    by (simp_all add: crtTVNames_def)
  from first_match_wins [of "''a rose of sharon''" crtTVNames 3] a l(1,2)
  have "(\<exists>nameEntry\<in>set (crtTVNames ! 3).
         synonymMatches (splitWords ''a rose of sharon'') nameEntry)
     \<and> \<not> synonymMatches (splitWords ''a rose of sharon'') (crtTVNames ! 0 ! 0)"
    by blast
  moreover from first_match_wins [of "''sweet violet rose''" crtTVNames 13 "''rose''"] found_rose
  have "foundIndex ''sweet violet rose'' crtTVNames = 13" by simp
  moreover from first_match_wins [of "''cactus''" crtTVNames] found_cactus l(3,4)
  have "\<not> synonymMatches (splitWords ''cactus'') (crtTVNames ! 13 ! 0)" by blast
  ultimately show ?thesis using a by simp
qed

text \<open>
  C5, as worded, fails on the plus sign: the character class of the sketch holds it, so
  \<open>lily+rose\<close> is split in two, and the set the specification lists does not.
\<close>

theorem plus_is_a_separator:
  "splitWords ''lily+rose'' = [''lily'', ''rose''] \<and> isSeparator CHR ''+''
   \<and> \<not> spec_isSeparator CHR ''+''"
  by code_simp

text \<open>
  C5 (amended): the separators are exactly space, plus, hyphen, underscore, backtick,
  apostrophe, period, question mark and exclamation mark.  A text without separators is
  one token; a token followed by a run of one or more separators is split off as a whole,
  the run acting as one separator.  A synonym word is found at the first token, from the
  scan position on, that equals it after lower-casing both, compared as whole strings.
\<close>

theorem tokenizer_separators:
  "(isSeparator c \<longleftrightarrow>
      c \<in> {CHR '' '', CHR ''+'', CHR ''-'', CHR ''_'', CHR 0x60, CHR 0x27,
            CHR ''.'', CHR ''?'', CHR ''!''})
   \<and> ((\<forall>c\<in>set u. \<not> isSeparator c) \<longrightarrow> splitWords u = [u])
   \<and> ((\<forall>c\<in>set u. \<not> isSeparator c) \<and> run \<noteq> [] \<and> (\<forall>c\<in>set run. isSeparator c)
        \<and> (rest = [] \<or> \<not> isSeparator (hd rest))
        \<longrightarrow> splitWords (u @ run @ rest) = u # splitWords rest)
   \<and> (findPart words k part = Some k' \<longleftrightarrow>
        (\<exists>j. k' = Suc j \<and> k \<le> j \<and> j < length words
          \<and> toLowerCase (words ! j) = toLowerCase part
          \<and> (\<forall>i. k \<le> i \<and> i < j \<longrightarrow> toLowerCase (words ! i) \<noteq> toLowerCase part)))
   \<and> toLowerCase ''Rose Of SHARON'' = ''rose of sharon''"
proof -
  have a: "isSeparator c \<longleftrightarrow>
      c \<in> {CHR '' '', CHR ''+'', CHR ''-'', CHR ''_'', CHR 0x60, CHR 0x27,
            CHR ''.'', CHR ''?'', CHR ''!''}"
    by (simp add: isSeparator_def)
  have b: "(\<forall>c\<in>set u. \<not> isSeparator c) \<longrightarrow> splitWords u = [u]"
    using splitRegex_plain [of u "[]"] by (simp add: splitWords_def)
  have c: "(\<forall>c\<in>set u. \<not> isSeparator c) \<and> run \<noteq> [] \<and> (\<forall>c\<in>set run. isSeparator c)
        \<and> (rest = [] \<or> \<not> isSeparator (hd rest))
        \<longrightarrow> splitWords (u @ run @ rest) = u # splitWords rest"
    using splitRegex_run [of u run rest "[]"] by (simp add: splitWords_def)
  have d: "toLowerCase ''Rose Of SHARON'' = ''rose of sharon''" by code_simp
  from a b c d findPart_Some_iff [of words k part k'] show ?thesis by blast
qed

theorem tokenizer_separators_witness:
  "splitWords ''lily'' = [''lily'']
   \<and> splitWords ''lily - rose'' = ''lily'' # splitWords ''rose''
   \<and> isSeparator CHR ''+''
   \<and> findPart [''a'', ''Rose''] 0 ''rose'' = Some 2"
proof -
  have h1: "\<forall>c\<in>set ''lily''. \<not> isSeparator c" by (simp add: isSeparator_def)
  have h2: "'' - '' \<noteq> []" "\<forall>c\<in>set '' - ''. isSeparator c"
    "''rose'' = [] \<or> \<not> isSeparator (hd ''rose'')"
    by (simp_all add: isSeparator_def)
  have h3: "\<exists>j. (2::nat) = Suc j \<and> 0 \<le> j \<and> j < length [''a'', ''Rose'']
          \<and> toLowerCase ([''a'', ''Rose''] ! j) = toLowerCase ''rose''
          \<and> (\<forall>i. 0 \<le> i \<and> i < j \<longrightarrow>
                toLowerCase ([''a'', ''Rose''] ! i) \<noteq> toLowerCase ''rose'')"
  proof -
    have l: "toLowerCase ''Rose'' = toLowerCase ''rose''"
      "toLowerCase ''a'' \<noteq> toLowerCase ''rose''"
      by code_simp+
    then show ?thesis by (intro exI [of _ 1]) simp
  qed
  from tokenizer_separators
    [of "CHR ''+''" "''lily''" "'' - ''" "''rose''" "[''a'', ''Rose'']" 0 "''rose''" 2]
    h1 h2 h3
  show ?thesis by simp
qed

section \<open>Claims about the geometric measures\<close>

text \<open>
  C6: if either point is \<open>null\<close>, \<open>measureDistance\<close> returns \<open>null\<close> and \<open>measureVelocity\<close>
  returns the zero vector; and on no pair of arguments does either function throw.
\<close>

theorem measures_null_safe:
  "measureDistance None point2 = Inr None \<and> measureDistance point1 None = Inr None
   \<and> measureVelocity None point2 = Inr \<lparr>vel_x = 0, vel_y = 0, vel_speed = 0\<rparr>
   \<and> measureVelocity point1 None = Inr \<lparr>vel_x = 0, vel_y = 0, vel_speed = 0\<rparr>
   \<and> (\<exists>d. measureDistance point1 point2 = Inr d)
   \<and> (\<exists>v. measureVelocity point1 point2 = Inr v)"
  by (cases point1; cases point2)
     (simp_all add: measureDistance_def measureVelocity_def minus_props_def get_x_def get_y_def)

section \<open>Facts about one frame\<close>

lemmas step_defs = drawUI_def mouthStep_def graphicStep_def velocityStep_def randomIndex_def

lemma open_iff:
  "(\<not> mouthOpen s \<and> mouthOpen (fst (drawUI f s))) \<longleftrightarrow>
     (camReady f \<and> 0 < facesLength f \<and> \<not> mouthOpen s \<and> aboveOpen (distance3_4 f)
      \<and> nowTime f - mouthCloseTime s > 500)"
  by (auto simp: step_defs Let_def split: prod.splits if_splits)

lemma start_iff:
  "Start \<in> set (snd (drawUI f s)) \<longleftrightarrow>
     (camReady f \<and> 0 < facesLength f \<and> \<not> mouthOpen s \<and> aboveOpen (distance3_4 f)
      \<and> nowTime f - mouthCloseTime s > 500)"
  by (auto simp: step_defs Let_def split: prod.splits if_splits)

lemma stop_iff:
  "Stop \<in> set (snd (drawUI f s)) \<longleftrightarrow>
     (camReady f \<and> 0 < facesLength f \<and> mouthOpen s \<and> \<not> aboveOpen (distance3_4 f)
      \<and> nowTime f - mouthOpenTime s > 10000)"
  by (auto simp: step_defs Let_def split: prod.splits if_splits)

lemma close_iff:
  "(mouthOpen s \<and> \<not> mouthOpen (fst (drawUI f s))) \<longleftrightarrow>
     (camReady f \<and> 0 < facesLength f \<and> mouthOpen s \<and> \<not> aboveOpen (distance3_4 f)
      \<and> nowTime f - mouthOpenTime s > 10000)"
  by (auto simp: step_defs Let_def split: prod.splits if_splits)

lemma calls_cases:
  "snd (drawUI f s) = [] \<or> snd (drawUI f s) = [Start] \<or> snd (drawUI f s) = [Stop]"
  by (auto simp: step_defs Let_def split: prod.splits if_splits)

lemma restamp:
  "camReady f \<Longrightarrow> 0 < facesLength f \<Longrightarrow> \<not> aboveOpen (distance3_4 f) \<Longrightarrow>
     mouthCloseTime (fst (drawUI f s)) = nowTime f"
  by (auto simp: step_defs Let_def split: prod.splits if_splits)

lemma open_keeps_openTime:
  "mouthOpen s \<Longrightarrow> mouthOpenTime (fst (drawUI f s)) = mouthOpenTime s"
  by (auto simp: step_defs Let_def split: prod.splits if_splits)

lemma drawUI_keeps_open:
  "mouthOpen s \<Longrightarrow> aboveOpen (distance3_4 f) \<Longrightarrow>
     snd (drawUI f s) = [] \<and> mouthOpen (fst (drawUI f s))"
  by (auto simp: step_defs Let_def split: prod.splits if_splits)

lemma drawUI_above_cmds:
  "aboveOpen (distance3_4 f) \<Longrightarrow>
     (snd (drawUI f s) = [] \<and> mouthOpen (fst (drawUI f s)) = mouthOpen s)
     \<or> (snd (drawUI f s) = [Start] \<and> mouthOpen (fst (drawUI f s)))"
  by (auto simp: step_defs Let_def split: prod.splits if_splits)

lemma drawUI_face:
  "camReady f \<Longrightarrow> 0 < facesLength f \<Longrightarrow>
     fst (drawUI f s) = velocityStep f (graphicStep f (fst (mouthStep f s)))"
  by (simp add: drawUI_def split: prod.splits)

lemma graphicStep_fields:
  "mouthOpen (graphicStep f s) = mouthOpen s"
  "velocityYTime (graphicStep f s) = velocityYTime s"
  "crtTVIndex (graphicStep f s) = crtTVIndex s"
  by (simp_all add: graphicStep_def)

lemma mouthStep_velocityYTime: "velocityYTime (fst (mouthStep f s)) = velocityYTime s"
  by (simp add: mouthStep_def Let_def split: prod.splits)

lemma velocityStep_mouthOpen: "mouthOpen (velocityStep f s) = mouthOpen s"
  by (simp add: velocityStep_def Let_def)

lemma runFrames_Cons:
  "runFrames (f # fs) s =
     (fst (runFrames fs (fst (drawUI f s))),
      (mouthOpen s, mouthOpen (fst (drawUI f s)), snd (drawUI f s))
        # snd (runFrames fs (fst (drawUI f s))))"
  by (simp split: prod.splits)

lemma engineCalls_Cons:
  "engineCalls (snd (runFrames (f # fs) s)) =
     snd (drawUI f s) @ engineCalls (snd (runFrames fs (fst (drawUI f s))))"
  by (simp add: runFrames_Cons engineCalls_def del: runFrames.simps)

lemma fst_runFrames_Cons:
  "fst (runFrames (f # fs) s) = fst (runFrames fs (fst (drawUI f s)))"
  by (simp add: runFrames_Cons del: runFrames.simps)

lemma run_open_no_calls:
  "mouthOpen s \<Longrightarrow> \<forall>f\<in>set fs. aboveOpen (distance3_4 f) \<Longrightarrow>
     engineCalls (snd (runFrames fs s)) = [] \<and> mouthOpen (fst (runFrames fs s))"
proof (induction fs arbitrary: s)
  case Nil
  then show ?case by (simp add: engineCalls_def)
next
  case (Cons f fs)
  from Cons.prems have k: "snd (drawUI f s) = []" "mouthOpen (fst (drawUI f s))"
    using drawUI_keeps_open [of s f] by auto
  from Cons.IH [OF k(2)] Cons.prems(2) k show ?case
    using engineCalls_Cons [of f fs s] fst_runFrames_Cons [of f fs s] by simp
qed

lemma run_one_start:
  "\<forall>f\<in>set fs. aboveOpen (distance3_4 f) \<Longrightarrow>
     engineCalls (snd (runFrames fs s)) = [] \<or> engineCalls (snd (runFrames fs s)) = [Start]"
proof (induction fs arbitrary: s)
  case Nil
  then show ?case by (simp add: engineCalls_def)
next
  case (Cons f fs)
  then have a: "aboveOpen (distance3_4 f)" and r: "\<forall>f\<in>set fs. aboveOpen (distance3_4 f)"
    by auto
  note e = engineCalls_Cons [of f fs s]
  from drawUI_above_cmds [OF a, of s] show ?case
  proof
    assume "snd (drawUI f s) = [] \<and> mouthOpen (fst (drawUI f s)) = mouthOpen s"
    with Cons.IH [OF r, of "fst (drawUI f s)"] e show ?thesis by simp
  next
    assume "snd (drawUI f s) = [Start] \<and> mouthOpen (fst (drawUI f s))"
    with run_open_no_calls [OF _ r, of "fst (drawUI f s)"] e show ?thesis by simp
  qed
qed

lemma jsRem_nonneg: "0 \<le> a \<Longrightarrow> 0 < b \<Longrightarrow> jsRem a b = Some (a mod b)"
  by (cases "a = 0") (simp_all add: jsRem_def)

lemma jsRem_up: "0 \<le> i \<Longrightarrow> i < n \<Longrightarrow> jsRem (i + 1) n = Some ((i + 1) mod n)"
  by (simp add: jsRem_nonneg)

lemma jsRem_down: "0 \<le> i \<Longrightarrow> i < n \<Longrightarrow> jsRem (i - 1 + n) n = Some ((i - 1) mod n)"
  by (simp add: jsRem_nonneg)

lemma velocityStep_range:
  "inRange (crtTVIndex s) (imagesLength f) \<Longrightarrow>
     inRange (crtTVIndex (velocityStep f s)) (imagesLength f)"
  by (auto simp: velocityStep_def inRange_def Let_def jsRem_up jsRem_down split: option.splits)

lemma mouthStep_range:
  "inRange (crtTVIndex s) (imagesLength f) \<Longrightarrow> 0 \<le> randomValue f \<Longrightarrow>
     randomValue f < real (imagesLength f) \<Longrightarrow>
     inRange (crtTVIndex (fst (mouthStep f s))) (imagesLength f)"
  by (simp add: mouthStep_def randomIndex_def Let_def inRange_def floor_less_iff
      split: prod.splits)

lemma drawUI_range:
  assumes "inRange (crtTVIndex s) (imagesLength f)" and "0 \<le> randomValue f"
    and "randomValue f < real (imagesLength f)"
  shows "inRange (crtTVIndex (fst (drawUI f s))) (imagesLength f)"
proof (cases "camReady f \<and> 0 < facesLength f")
  case False
  with assms(1) show ?thesis by (auto simp: drawUI_def)
next
  case True
  then have "fst (drawUI f s) = velocityStep f (graphicStep f (fst (mouthStep f s)))"
    by (simp add: drawUI_face)
  with mouthStep_range [OF assms] show ?thesis
    by (simp add: velocityStep_range graphicStep_fields)
qed

lemma later_steps_gesture: "gesture (velocityStep f (graphicStep f s)) = gesture s"
  by (simp add: gesture_def velocityStep_def graphicStep_def Let_def)

lemma mouthStep_gesture:
  "camReady f \<Longrightarrow> 0 < facesLength f \<Longrightarrow>
     gesture (fst (mouthStep f s)) = fst (gestureStep f (gesture s))
     \<and> snd (mouthStep f s) = snd (gestureStep f (gesture s))"
  by (simp add: mouthStep_def gesture_def gestureStep_def Let_def)

lemma drawUI_gesture:
  "gesture (fst (drawUI f s)) = fst (gestureStep f (gesture s))
   \<and> snd (drawUI f s) = snd (gestureStep f (gesture s))"
proof (cases "camReady f \<and> 0 < facesLength f")
  case False
  then show ?thesis by (auto simp: drawUI_def gesture_def gestureStep_def)
next
  case True
  then have "snd (drawUI f s) = snd (mouthStep f s)"
    by (simp add: drawUI_def split: prod.splits)
  with True mouthStep_gesture [of f s] show ?thesis
    by (simp add: drawUI_face later_steps_gesture)
qed

lemma gestureRun_Cons:
  "gestureRun (f # fs) g =
     (fst (gestureRun fs (fst (gestureStep f g))),
      (fst g, fst (fst (gestureStep f g)), snd (gestureStep f g))
        # snd (gestureRun fs (fst (gestureStep f g))))"
  by (simp split: prod.splits)

lemma runFrames_gesture:
  "gesture (fst (runFrames fs s)) = fst (gestureRun fs (gesture s))
   \<and> snd (runFrames fs s) = snd (gestureRun fs (gesture s))"
proof (induction fs arbitrary: s)
  case Nil
  show ?case by simp
next
  case (Cons f fs)
  let ?s1 = "fst (drawUI f s)"
  have g1: "gesture ?s1 = fst (gestureStep f (gesture s))"
    and c1: "snd (drawUI f s) = snd (gestureStep f (gesture s))"
    using drawUI_gesture [of f s] by simp_all
  have m: "mouthOpen s = fst (gesture s)" "mouthOpen ?s1 = fst (gesture ?s1)"
    by (simp_all add: gesture_def)
  from Cons.IH [of ?s1] show ?case
    unfolding runFrames_Cons gestureRun_Cons m
    by (simp add: g1 c1)
qed

lemma runFrames_log: "snd (runFrames fs s) = snd (gestureRun fs (gesture s))"
  by (simp add: runFrames_gesture)

lemmas gesture_defs = gesture_def gestureStep_def mouthFrame_def aboveOpen_def
  openTransitions_def closeTransitions_def engineCalls_def

lemmas run_defs = step_defs mouthFrame_def initSketch_def aboveOpen_def Let_def
  openTransitions_def closeTransitions_def engineCalls_def

section \<open>Claims about the gesture and the capture window\<close>

text \<open>
  C2, as worded, fails: on the distances 1, 1, 4, 4, 1, 1 sampled 100 ms apart the sketch
  makes no closed-to-open transition.  Every frame whose distance is not above 3 stamps
  \<open>mouthCloseTime\<close> anew, so the two frames above 3 come 100 and 200 ms after the last
  close, within the 500 ms in which the sketch does not start.
\<close>

theorem short_opening_fires_no_transition:
  "openTransitions (snd (runFrames (sampled 1000 100 [1, 1, 4, 4, 1, 1]) initSketch)) \<noteq> 1"
  by (simp add: run_defs)

text \<open>
  C2 (amended): with the open threshold 3 and the 500 ms re-arm time of the sketch (it has
  no separate close threshold), the distances 1, 1, 4, 4, 1, 1 sampled 100 ms apart from
  any closed state, at any start time, produce no closed-to-open and no
  open-to-closed transition and no engine call; held above 3 for six samples, the same
  start produces exactly one closed-to-open transition and one \<open>start\<close>, and the drop
  below 3 afterwards closes nothing.  A frame makes the closed-to-open transition, and calls
  \<open>start\<close>, exactly when the camera is ready, a face is detected, the gesture is closed,
  the distance is above 3 and strictly more than 500 ms have passed since
  \<open>mouthCloseTime\<close>, which every frame with a face and a distance not above 3 sets to
  its own time.
\<close>

theorem mouth_sequence_transitions:
  "(\<not> mouthOpen s0 \<longrightarrow>
      openTransitions (snd (runFrames (sampled t0 100 [1, 1, 4, 4, 1, 1]) s0)) = 0
      \<and> closeTransitions (snd (runFrames (sampled t0 100 [1, 1, 4, 4, 1, 1]) s0)) = 0
      \<and> engineCalls (snd (runFrames (sampled t0 100 [1, 1, 4, 4, 1, 1]) s0)) = []
      \<and> openTransitions
           (snd (runFrames (sampled t0 100 [1, 1, 4, 4, 4, 4, 4, 4, 1, 1]) s0)) = 1
      \<and> closeTransitions
           (snd (runFrames (sampled t0 100 [1, 1, 4, 4, 4, 4, 4, 4, 1, 1]) s0)) = 0
      \<and> engineCalls
           (snd (runFrames (sampled t0 100 [1, 1, 4, 4, 4, 4, 4, 4, 1, 1]) s0)) = [Start])
   \<and> ((\<not> mouthOpen s \<and> mouthOpen (fst (drawUI f s))) \<longleftrightarrow>
        (camReady f \<and> 0 < facesLength f \<and> \<not> mouthOpen s \<and> aboveOpen (distance3_4 f)
         \<and> nowTime f - mouthCloseTime s > 500))
   \<and> (Start \<in> set (snd (drawUI f s)) \<longleftrightarrow> (\<not> mouthOpen s \<and> mouthOpen (fst (drawUI f s))))
   \<and> (camReady f \<and> 0 < facesLength f \<and> \<not> aboveOpen (distance3_4 f)
        \<longrightarrow> mouthCloseTime (fst (drawUI f s)) = nowTime f)"
proof -
  have a: "openTransitions (snd (runFrames (sampled t0 100 [1, 1, 4, 4, 1, 1]) s0)) = 0
   \<and> closeTransitions (snd (runFrames (sampled t0 100 [1, 1, 4, 4, 1, 1]) s0)) = 0
   \<and> engineCalls (snd (runFrames (sampled t0 100 [1, 1, 4, 4, 1, 1]) s0)) = []"
    if "\<not> mouthOpen s0"
    using that unfolding runFrames_log by (simp add: gesture_defs)
  have b: "openTransitions
        (snd (runFrames (sampled t0 100 [1, 1, 4, 4, 4, 4, 4, 4, 1, 1]) s0)) = 1
   \<and> closeTransitions
        (snd (runFrames (sampled t0 100 [1, 1, 4, 4, 4, 4, 4, 4, 1, 1]) s0)) = 0
   \<and> engineCalls
        (snd (runFrames (sampled t0 100 [1, 1, 4, 4, 4, 4, 4, 4, 1, 1]) s0)) = [Start]"
    if "\<not> mouthOpen s0"
    using that unfolding runFrames_log by (simp add: gesture_defs)
  from a b open_iff [of s f] start_iff [of f s] restamp [of f s] show ?thesis by blast
qed

theorem mouth_sequence_transitions_witness:
  "openTransitions (snd (runFrames (sampled 1000 100 [1, 1, 4, 4, 1, 1]) initSketch)) = 0
   \<and> engineCalls
       (snd (runFrames (sampled 1000 100 [1, 1, 4, 4, 4, 4, 4, 4, 1, 1]) initSketch)) = [Start]
   \<and> mouthCloseTime (fst (drawUI (mouthFrame 1100 1) initSketch)) = 1100
   \<and> Start \<in> set (snd (drawUI (mouthFrame 1100 4) initSketch))"
proof -
  have n: "\<not> mouthOpen initSketch" by (simp add: initSketch_def)
  have h: "camReady (mouthFrame 1100 1)" "0 < facesLength (mouthFrame 1100 1)"
    "\<not> aboveOpen (distance3_4 (mouthFrame 1100 1))"
    by (simp_all add: mouthFrame_def aboveOpen_def)
  have g: "camReady (mouthFrame 1100 4) \<and> 0 < facesLength (mouthFrame 1100 4)
    \<and> \<not> mouthOpen initSketch \<and> aboveOpen (distance3_4 (mouthFrame 1100 4))
    \<and> nowTime (mouthFrame 1100 4) - mouthCloseTime initSketch > 500"
    by (simp add: mouthFrame_def aboveOpen_def initSketch_def)
  from mouth_sequence_transitions [of initSketch 1000 initSketch "mouthFrame 1100 1"] n h
  have "openTransitions (snd (runFrames (sampled 1000 100 [1, 1, 4, 4, 1, 1]) initSketch)) = 0
   \<and> engineCalls
       (snd (runFrames (sampled 1000 100 [1, 1, 4, 4, 4, 4, 4, 4, 1, 1]) initSketch)) = [Start]
   \<and> mouthCloseTime (fst (drawUI (mouthFrame 1100 1) initSketch)) = 1100"
    by (simp add: mouthFrame_def)
  moreover from mouth_sequence_transitions [of initSketch 1000 initSketch "mouthFrame 1100 4"] g
  have "Start \<in> set (snd (drawUI (mouthFrame 1100 4) initSketch))" by blast
  ultimately show ?thesis by simp
qed

text \<open>
  C3: the sketch does not force-close a gesture that stays open.  From the initial state,
  with the distance above 3 on every frame, 5 s apart from 1000 ms to 21000 ms, the gesture
  opens at 1000 ms, is still open 20 s later, and the only engine call is the \<open>start\<close>.
  The test that the sketch comments as stopping the recognition after 10 seconds of open
  mouth is made only on a frame whose distance is not above 3: with such a frame added at
  26000 ms the \<open>stop\<close> comes there, 25 s after the opening.
\<close>

theorem open_mouth_never_times_out:
  "mouthOpen (fst (runFrames (sampled 1000 5000 [4, 4, 4, 4, 4]) initSketch))
   \<and> engineCalls (snd (runFrames (sampled 1000 5000 [4, 4, 4, 4, 4]) initSketch)) = [Start]
   \<and> closeTransitions (snd (runFrames (sampled 1000 5000 [4, 4, 4, 4, 4]) initSketch)) = 0
   \<and> mouthOpenTime (fst (runFrames (sampled 1000 5000 [4, 4, 4, 4, 4]) initSketch)) = 1000
   \<and> engineCalls (snd (runFrames (sampled 1000 5000 [4, 4, 4, 4, 4, 1]) initSketch))
       = [Start, Stop]"
  by (simp add: run_defs)

text \<open>
  C9: while the gesture is open a frame does not call \<open>start\<close> and does not change the
  opening time; while it is closed a frame does not call \<open>stop\<close>.  A frame that calls
  \<open>start\<close> calls nothing else, finds the gesture closed with more than 500 ms since the
  last close, and leaves it open; the speech callback stamps the close time when it closes
  the gesture.  Hence any run of frames that all ask for a start (distance above 3) calls
  \<open>start\<close> at most once and never \<open>stop\<close>: one capture window.
\<close>

theorem gesture_edge_triggered:
  "(mouthOpen s \<longrightarrow>
      Start \<notin> set (snd (drawUI f s)) \<and> mouthOpenTime (fst (drawUI f s)) = mouthOpenTime s)
   \<and> (\<not> mouthOpen s \<longrightarrow> Stop \<notin> set (snd (drawUI f s)))
   \<and> (Start \<in> set (snd (drawUI f s)) \<longrightarrow>
        snd (drawUI f s) = [Start] \<and> \<not> mouthOpen s \<and> mouthOpen (fst (drawUI f s))
        \<and> nowTime f - mouthCloseTime s > 500)
   \<and> (Stop \<in> set (snd (drawUI f s)) \<longrightarrow>
        snd (drawUI f s) = [Stop] \<and> mouthOpen s \<and> \<not> mouthOpen (fst (drawUI f s)))
   \<and> \<not> mouthOpen (showResult True resultString names now rnd s)
   \<and> mouthCloseTime (showResult True resultString names now rnd s) = now
   \<and> ((\<forall>f\<in>set fs. aboveOpen (distance3_4 f)) \<longrightarrow>
        engineCalls (snd (runFrames fs s)) = [] \<or> engineCalls (snd (runFrames fs s)) = [Start])"
proof -
  have a: "Start \<notin> set (snd (drawUI f s)) \<and> mouthOpenTime (fst (drawUI f s)) = mouthOpenTime s"
    if "mouthOpen s"
    using that start_iff [of f s] open_keeps_openTime [of s f] by simp
  have b: "Stop \<notin> set (snd (drawUI f s))" if "\<not> mouthOpen s"
    using that stop_iff [of f s] by simp
  have c: "snd (drawUI f s) = [Start] \<and> \<not> mouthOpen s \<and> mouthOpen (fst (drawUI f s))
        \<and> nowTime f - mouthCloseTime s > 500" if "Start \<in> set (snd (drawUI f s))"
    using that start_iff [of f s] open_iff [of s f] calls_cases [of f s] by auto
  have d: "snd (drawUI f s) = [Stop] \<and> mouthOpen s \<and> \<not> mouthOpen (fst (drawUI f s))"
    if "Stop \<in> set (snd (drawUI f s))"
    using that stop_iff [of f s] close_iff [of s f] calls_cases [of f s] by auto
  have e: "\<not> mouthOpen (showResult True resultString names now rnd s)
     \<and> mouthCloseTime (showResult True resultString names now rnd s) = now"
    by (simp add: showResult_def Let_def)
  from a b c d e run_one_start [of fs s] show ?thesis by blast
qed

theorem gesture_edge_triggered_witness:
  "engineCalls (snd (runFrames (sampled 1000 100 [4, 4]) initSketch)) = [Start]
   \<and> Start \<notin> set (snd (drawUI (mouthFrame 1100 4)
                       (fst (drawUI (mouthFrame 1000 4) initSketch))))
   \<and> Stop \<notin> set (snd (drawUI (mouthFrame 1000 1) initSketch))"
proof -
  let ?s1 = "fst (drawUI (mouthFrame 1000 4) initSketch)"
  have o: "mouthOpen ?s1" by (simp add: run_defs)
  have n: "\<not> mouthOpen initSketch" by (simp add: initSketch_def)
  have fs: "\<forall>f\<in>set (sampled 1000 100 [4, 4]). aboveOpen (distance3_4 f)"
    by (simp add: mouthFrame_def aboveOpen_def)
  have ne: "engineCalls (snd (runFrames (sampled 1000 100 [4, 4]) initSketch)) \<noteq> []"
    by (simp add: run_defs)
  from gesture_edge_triggered [of initSketch _ _ _ _ _ "sampled 1000 100 [4, 4]"] fs ne
  have "engineCalls (snd (runFrames (sampled 1000 100 [4, 4]) initSketch)) = [Start]"
    by blast
  moreover from gesture_edge_triggered [of ?s1 "mouthFrame 1100 4"] o
  have "Start \<notin> set (snd (drawUI (mouthFrame 1100 4) ?s1))" by blast
  moreover from gesture_edge_triggered [of initSketch "mouthFrame 1000 1"] n
  have "Stop \<notin> set (snd (drawUI (mouthFrame 1000 1) initSketch))" by blast
  ultimately show ?thesis by simp
qed

section \<open>Claims about the selection\<close>

text \<open>
  C8: when the matcher finds entry \<open>i\<close>, the callback leaves the state as it was except
  that the gesture is closed at time \<open>now\<close>, the graphic is \<open>pgClosed\<close>, and \<open>crtTVIndex\<close>
  is exactly \<open>i\<close>, the index of an entry of the catalogue with a matching synonym; a
  callback without a result changes nothing.
\<close>

theorem matched_index_selected:
  "(searchNames (splitWords resultString) names 0 = Some (i, nameEntry) \<longrightarrow>
      showResult True resultString names now rnd s =
        s\<lparr>mouthOpen := False, mouthClose := True, mouthCloseTime := now,
          pg := PgClosed, crtTVIndex := Some (int i)\<rparr>
      \<and> i < length names \<and> nameEntry \<in> set (names ! i)
      \<and> synonymMatches (splitWords resultString) nameEntry)
   \<and> showResult False resultString names now rnd s = s"
proof -
  have "showResult True resultString names now rnd s =
        s\<lparr>mouthOpen := False, mouthClose := True, mouthCloseTime := now,
          pg := PgClosed, crtTVIndex := Some (int i)\<rparr>"
    if "searchNames (splitWords resultString) names 0 = Some (i, nameEntry)"
    using foundIndex_Some [OF that] by (simp add: showResult_def)
  moreover have "i < length names \<and> nameEntry \<in> set (names ! i)
      \<and> synonymMatches (splitWords resultString) nameEntry"
    if "searchNames (splitWords resultString) names 0 = Some (i, nameEntry)"
    using that by (auto simp: searchNames_Some findSynonym_find find_Some_iff)
  ultimately show ?thesis by (simp add: showResult_def)
qed

theorem matched_index_selected_witness:
  "crtTVIndex (showResult True ''a rose of sharon'' crtTVNames 2500 17.2 initSketch) = Some 3
   \<and> pg (showResult True ''a rose of sharon'' crtTVNames 2500 17.2 initSketch) = PgClosed
   \<and> ''rose of sharon'' \<in> set (crtTVNames ! 3)"
  using matched_index_selected
    [of "''a rose of sharon''" crtTVNames 3 "''rose of sharon''" 2500 "17.2" initSketch]
    found_sharon
  by simp

text \<open>
  C7: \<open>rnd\<close> is the number that \<open>random(crtTVImages.length)\<close> returns, by its contract at
  least 0 and below the length \<open>n\<close>.  When nothing matched, the callback sets the index to
  the floor of that number: it lies in \<open>[0, n)\<close>, does not depend on the previous index,
  and is \<open>k\<close> exactly when the draw falls in \<open>[k, k + 1)\<close>, an interval of the same length
  for every \<open>k\<close>.  The frame that times out sets the index by the same expression, with the
  same three properties, and the index is still in \<open>[0, n)\<close> and independent of the
  previous one at the end of that frame.
\<close>

theorem fallback_index_random_pick:
  "(foundIndex resultString names = - 1 \<and> 0 \<le> rnd \<and> rnd < real n \<longrightarrow>
      crtTVIndex (showResult True resultString names now rnd s) = Some \<lfloor>rnd\<rfloor>
      \<and> inRange (crtTVIndex (showResult True resultString names now rnd s)) n
      \<and> crtTVIndex (showResult True resultString names now rnd (s\<lparr>crtTVIndex := j\<rparr>))
          = crtTVIndex (showResult True resultString names now rnd s)
      \<and> (crtTVIndex (showResult True resultString names now rnd s) = Some k
           \<longleftrightarrow> of_int k \<le> rnd \<and> rnd < of_int k + 1))
   \<and> (Stop \<in> set (snd (drawUI f s)) \<and> 0 \<le> randomValue f
        \<and> randomValue f < real (imagesLength f) \<longrightarrow>
      crtTVIndex (fst (mouthStep f s)) = Some \<lfloor>randomValue f\<rfloor>
      \<and> inRange (crtTVIndex (fst (mouthStep f s))) (imagesLength f)
      \<and> inRange (crtTVIndex (fst (drawUI f s))) (imagesLength f)
      \<and> crtTVIndex (fst (drawUI f (s\<lparr>crtTVIndex := j\<rparr>))) = crtTVIndex (fst (drawUI f s))
      \<and> (crtTVIndex (fst (mouthStep f s)) = Some k
           \<longleftrightarrow> of_int k \<le> randomValue f \<and> randomValue f < of_int k + 1))"
proof -
  have fl: "\<lfloor>r\<rfloor> = k \<longleftrightarrow> of_int k \<le> r \<and> r < of_int k + 1" for r :: real
    by (rule floor_eq_iff)
  have A: "crtTVIndex (showResult True resultString names now rnd s') = Some \<lfloor>rnd\<rfloor>"
    if "foundIndex resultString names = - 1" for s'
    using that by (simp add: showResult_def)
  have B: "inRange (Some \<lfloor>r\<rfloor>) m" if "0 \<le> r" "r < real m" for r m
    using that by (simp add: inRange_def floor_less_iff)
  have st: "camReady f \<and> 0 < facesLength f \<and> mouthOpen s \<and> \<not> aboveOpen (distance3_4 f)
      \<and> nowTime f - mouthOpenTime s > 10000" if "Stop \<in> set (snd (drawUI f s))"
    using that stop_iff by blast
  have C: "crtTVIndex (fst (mouthStep f s)) = Some \<lfloor>randomValue f\<rfloor>"
    if "Stop \<in> set (snd (drawUI f s))"
    using st [OF that] by (simp add: mouthStep_def randomIndex_def Let_def)
  have D: "crtTVIndex (fst (drawUI f (s\<lparr>crtTVIndex := j\<rparr>))) = crtTVIndex (fst (drawUI f s))"
    if "Stop \<in> set (snd (drawUI f s))"
    using st [OF that]
    by (simp add: step_defs Let_def)
  have E: "inRange (crtTVIndex (fst (drawUI f s))) (imagesLength f)"
    if "Stop \<in> set (snd (drawUI f s))" "0 \<le> randomValue f"
      "randomValue f < real (imagesLength f)"
  proof -
    from st [OF that(1)]
    have "fst (drawUI f s) = velocityStep f (graphicStep f (fst (mouthStep f s)))"
      by (simp add: drawUI_face)
    with C [OF that(1)] B [OF that(2,3)] show ?thesis
      by (simp add: velocityStep_range graphicStep_fields)
  qed
  from A [of s] A [of "s\<lparr>crtTVIndex := j\<rparr>"] B [of rnd n] C
    B [of "randomValue f" "imagesLength f"] D E fl [of rnd] fl [of "randomValue f"]
  show ?thesis by auto
qed

theorem fallback_index_random_pick_witness:
  "crtTVIndex (showResult True ''cactus'' crtTVNames 2500 7.5
       (initSketch\<lparr>mouthOpen := True, mouthOpenTime := 1000\<rparr>)) = Some 7
   \<and> inRange (Some 7) 18
   \<and> crtTVIndex (fst (drawUI
        \<lparr>camReady = True, facesLength = 1, nowTime = 12000, distance3_4 = Some 1,
         velocity5_y = 0, imagesLength = 18, randomValue = 7.5\<rparr>
        (initSketch\<lparr>mouthOpen := True, mouthOpenTime := 1000\<rparr>))) = Some 7"
proof -
  let ?s = "initSketch\<lparr>mouthOpen := True, mouthOpenTime := 1000\<rparr>"
  let ?f = "\<lparr>camReady = True, facesLength = 1, nowTime = 12000, distance3_4 = Some 1,
         velocity5_y = 0, imagesLength = 18, randomValue = 7.5\<rparr>"
  have h1: "(0::real) \<le> 7.5" "(7.5::real) < real 18" by simp_all
  have h2: "Stop \<in> set (snd (drawUI ?f ?s))"
    by (simp add: step_defs initSketch_def aboveOpen_def Let_def)
  have h3: "0 \<le> randomValue ?f" "randomValue ?f < real (imagesLength ?f)" by simp_all
  have e: "crtTVIndex (fst (drawUI ?f ?s)) = crtTVIndex (fst (mouthStep ?f ?s))"
    by (simp add: step_defs initSketch_def aboveOpen_def Let_def)
  from fallback_index_random_pick [of "''cactus''" crtTVNames "7.5" 18 2500 ?s "Some 5" 7 ?f]
    found_cactus h1 h2 h3 e
  show ?thesis by simp
qed

text \<open>
  C10, as worded, fails at the boundary: with the mouth closed, the nose moving at 11 and
  exactly 500 ms since the last shift, the sketch leaves the index at 0; it asks for more
  than 500 ms.
\<close>

theorem velocity_no_shift_at_500ms:
  "\<not> mouthOpen (fst (drawUI
        \<lparr>camReady = True, facesLength = 1, nowTime = 1500, distance3_4 = Some 1,
         velocity5_y = 11, imagesLength = 18, randomValue = 0\<rparr>
        (initSketch\<lparr>velocityYTime := 1000\<rparr>)))
   \<and> \<bar>11 :: real\<bar> > 10 \<and> (1500 :: real) - 1000 \<ge> 500
   \<and> crtTVIndex (initSketch\<lparr>velocityYTime := 1000\<rparr>) = Some 0
   \<and> crtTVIndex (fst (drawUI
        \<lparr>camReady = True, facesLength = 1, nowTime = 1500, distance3_4 = Some 1,
         velocity5_y = 11, imagesLength = 18, randomValue = 0\<rparr>
        (initSketch\<lparr>velocityYTime := 1000\<rparr>))) = Some 0"
  by (simp add: step_defs initSketch_def aboveOpen_def Let_def)

text \<open>
  C10 (amended): on a frame with the camera ready and a face detected, if after the
  frame's gesture update the mouth is not open, the nose's vertical velocity exceeds 10 in
  magnitude and strictly more than 500 ms have passed since the last shift, then the index
  the gesture update left, \<open>i\<close> in \<open>[0, n)\<close>, becomes \<open>(i + 1) mod n\<close> for a positive
  velocity and \<open>(i - 1) mod n\<close> otherwise, and the shift time becomes the frame's time.
  On every other frame the nose leaves the index and the shift time alone.  The shift,
  and the whole frame, keep an index that is within \<open>[0, n)\<close> within \<open>[0, n)\<close>.
\<close>

theorem velocity_cycles_selection:
  "(camReady f \<and> 0 < facesLength f \<and> \<not> mouthOpen (fst (drawUI f s))
      \<and> \<bar>velocity5_y f\<bar> > 10 \<and> nowTime f - velocityYTime s > 500
      \<and> crtTVIndex (fst (mouthStep f s)) = Some i \<and> 0 \<le> i \<and> i < int (imagesLength f)
    \<longrightarrow> crtTVIndex (fst (drawUI f s)) =
          Some (if velocity5_y f > 0 then (i + 1) mod int (imagesLength f)
                else (i - 1) mod int (imagesLength f))
        \<and> velocityYTime (fst (drawUI f s)) = nowTime f)
   \<and> (camReady f \<and> 0 < facesLength f
      \<and> \<not> (\<not> mouthOpen (fst (drawUI f s)) \<and> \<bar>velocity5_y f\<bar> > 10
             \<and> nowTime f - velocityYTime s > 500)
    \<longrightarrow> crtTVIndex (fst (drawUI f s)) = crtTVIndex (fst (mouthStep f s))
        \<and> velocityYTime (fst (drawUI f s)) = velocityYTime s)
   \<and> (\<not> (camReady f \<and> 0 < facesLength f)
    \<longrightarrow> crtTVIndex (fst (drawUI f s)) = crtTVIndex s
        \<and> velocityYTime (fst (drawUI f s)) = velocityYTime s)
   \<and> (inRange (crtTVIndex s) (imagesLength f)
    \<longrightarrow> inRange (crtTVIndex (velocityStep f s)) (imagesLength f))
   \<and> (inRange (crtTVIndex s) (imagesLength f) \<and> 0 \<le> randomValue f
      \<and> randomValue f < real (imagesLength f)
    \<longrightarrow> inRange (crtTVIndex (fst (drawUI f s))) (imagesLength f))"
proof -
  let ?s2 = "graphicStep f (fst (mouthStep f s))"
  have m: "mouthOpen (fst (drawUI f s)) = mouthOpen ?s2" if "camReady f" "0 < facesLength f"
    using that by (simp add: drawUI_face velocityStep_mouthOpen)
  have t: "velocityYTime ?s2 = velocityYTime s" "crtTVIndex ?s2 = crtTVIndex (fst (mouthStep f s))"
    by (simp_all add: graphicStep_fields mouthStep_velocityYTime)
  have A: "crtTVIndex (fst (drawUI f s)) =
          Some (if velocity5_y f > 0 then (i + 1) mod int (imagesLength f)
                else (i - 1) mod int (imagesLength f))
        \<and> velocityYTime (fst (drawUI f s)) = nowTime f"
    if "camReady f" "0 < facesLength f" "\<not> mouthOpen (fst (drawUI f s))"
      "\<bar>velocity5_y f\<bar> > 10" "nowTime f - velocityYTime s > 500"
      "crtTVIndex (fst (mouthStep f s)) = Some i" "0 \<le> i" "i < int (imagesLength f)"
  proof -
    from that(3) m [OF that(1,2)] have "\<not> mouthOpen ?s2" by simp
    with that(4,5) t(1)
    have "velocityStep f ?s2 =
        (if velocity5_y f > 0
         then ?s2\<lparr>velocityYTime := nowTime f,
                  crtTVIndex := Option.bind (crtTVIndex ?s2)
                     (\<lambda>i. jsRem (i + 1) (int (imagesLength f)))\<rparr>
         else ?s2\<lparr>velocityYTime := nowTime f,
                  crtTVIndex := Option.bind (crtTVIndex ?s2)
                     (\<lambda>i. jsRem (i - 1 + int (imagesLength f)) (int (imagesLength f)))\<rparr>)"
      unfolding velocityStep_def by (simp add: Let_def)
    with that(6,7,8) t(2) show ?thesis
      by (simp add: drawUI_face [OF that(1,2)] jsRem_up jsRem_down)
  qed
  have B: "crtTVIndex (fst (drawUI f s)) = crtTVIndex (fst (mouthStep f s))
        \<and> velocityYTime (fst (drawUI f s)) = velocityYTime s"
    if "camReady f" "0 < facesLength f"
      "\<not> (\<not> mouthOpen (fst (drawUI f s)) \<and> \<bar>velocity5_y f\<bar> > 10
             \<and> nowTime f - velocityYTime s > 500)"
  proof -
    from that(3) m [OF that(1,2)] t(1)
    have "\<not> (\<not> mouthOpen ?s2 \<and> \<bar>velocity5_y f\<bar> > 10
             \<and> nowTime f - velocityYTime ?s2 > 500)" by simp
    then have "velocityStep f ?s2 = ?s2"
      unfolding velocityStep_def by (simp only: if_False)
    with t show ?thesis by (simp add: drawUI_face [OF that(1,2)])
  qed
  have C: "crtTVIndex (fst (drawUI f s)) = crtTVIndex s
        \<and> velocityYTime (fst (drawUI f s)) = velocityYTime s"
    if "\<not> (camReady f \<and> 0 < facesLength f)"
    using that by (auto simp: drawUI_def)
  from A B C velocityStep_range [of s f] drawUI_range [of s f] show ?thesis by blast
qed

theorem velocity_cycles_selection_witness:
  "crtTVIndex (fst (drawUI
        \<lparr>camReady = True, facesLength = 1, nowTime = 1501, distance3_4 = Some 1,
         velocity5_y = - 11, imagesLength = 18, randomValue = 0\<rparr>
        (initSketch\<lparr>velocityYTime := 1000\<rparr>))) = Some 17
   \<and> velocityYTime (fst (drawUI
        \<lparr>camReady = True, facesLength = 1, nowTime = 1501, distance3_4 = Some 1,
         velocity5_y = - 11, imagesLength = 18, randomValue = 0\<rparr>
        (initSketch\<lparr>velocityYTime := 1000\<rparr>))) = 1501
   \<and> inRange (Some 17) 18"
proof -
  let ?s = "initSketch\<lparr>velocityYTime := 1000\<rparr>"
  let ?f = "\<lparr>camReady = True, facesLength = 1, nowTime = 1501, distance3_4 = Some 1,
         velocity5_y = - 11, imagesLength = 18, randomValue = 0\<rparr>"
  have h: "camReady ?f" "0 < facesLength ?f" "\<not> mouthOpen (fst (drawUI ?f ?s))"
    "\<bar>velocity5_y ?f\<bar> > 10" "nowTime ?f - velocityYTime ?s > 500"
    "crtTVIndex (fst (mouthStep ?f ?s)) = Some 0" "(0::int) \<le> 0" "0 < int (imagesLength ?f)"
    "inRange (crtTVIndex ?s) (imagesLength ?f)" "0 \<le> randomValue ?f"
    "randomValue ?f < real (imagesLength ?f)"
    by (simp_all add: step_defs initSketch_def aboveOpen_def Let_def inRange_def)
  from velocity_cycles_selection [of ?f ?s 0] h show ?thesis by (simp add: inRange_def)
qed

end
